theory Spec2Isabelle
  imports Main "HOL-Library.Multiset"
begin

section \<open>Python strings\<close>

text \<open>
  A Python \<open>str\<close> is a sequence of Unicode code points; the program uses code points beyond
  ASCII (the bullet U+2022, the dashes U+2013 and U+2014, the curly quotes), so a string is
  modelled as a list of code point numbers and not as a list of bytes.
\<close>

type_synonym codepoint = nat
type_synonym pystr = "codepoint list"

definition ascii :: "string \<Rightarrow> pystr" where
  "ascii s = map of_char s"

text \<open>
  \<open>str.isspace\<close> of one character, which is also what \<open>str.strip()\<close> removes and what
  \<open>\s\<close> matches in a \<open>str\<close> pattern of \<open>re\<close>: U+0009..U+000D, U+001C..U+0020, U+0085,
  U+00A0, U+1680, U+2000..U+200A, U+2028, U+2029, U+202F, U+205F, U+3000.
\<close>

definition is_space :: "codepoint \<Rightarrow> bool" where
  "is_space c =
     ((9 \<le> c \<and> c \<le> 13) \<or> (28 \<le> c \<and> c \<le> 32) \<or> c = 133 \<or> c = 160 \<or> c = 5760 \<or>
      (8192 \<le> c \<and> c \<le> 8202) \<or> c = 8232 \<or> c = 8233 \<or> c = 8239 \<or> c = 8287 \<or> c = 12288)"

text \<open>
  The line boundaries of \<open>str.splitlines\<close>: LF, VT, FF, CR, FS, GS, RS, NEL, LS, PS.
\<close>

definition is_linebreak :: "codepoint \<Rightarrow> bool" where
  "is_linebreak c =
     ((10 \<le> c \<and> c \<le> 13) \<or> (28 \<le> c \<and> c \<le> 30) \<or> c = 133 \<or> c = 8232 \<or> c = 8233)"

text \<open>
  \<open>\d\<close> in a \<open>str\<close> pattern is the Unicode property Decimal_Number (Nd), a table of the
  Python runtime. The ranges are those of Unicode 14.0 (CPython 3.11): each entry is the code
  point of a digit zero, and the ten digits follow it; the mathematical digits
  U+1D7CE..U+1D7FF are five such runs in a row.
\<close>

definition decimal_zeros :: "codepoint list" where
  "decimal_zeros =
     [48, 1632, 1776, 1984, 2406, 2534, 2662, 2790, 2918, 3046, 3174, 3302, 3430, 3558,
      3664, 3792, 3872, 4160, 4240, 6112, 6160, 6470, 6608, 6784, 6800, 6992, 7088, 7232,
      7248, 42528, 43216, 43264, 43472, 43504, 43600, 44016, 65296, 66720, 68912, 69734,
      69872, 69942, 70096, 70384, 70736, 70864, 71248, 71360, 71472, 71904, 72016, 72784,
      73040, 73120, 92768, 92864, 93008, 120782, 120792, 120802, 120812, 120822, 123200,
      123632, 125264, 130032]"

definition is_decimal :: "codepoint \<Rightarrow> bool" where
  "is_decimal c = list_ex (\<lambda>z. z \<le> c \<and> c < z + 10) decimal_zeros"

text \<open>
  \<open>s.strip()\<close> and \<open>s.strip(chars)\<close>: the characters of a class are dropped from the left
  end, then from the right end.
\<close>

definition strip_class :: "(codepoint \<Rightarrow> bool) \<Rightarrow> pystr \<Rightarrow> pystr" where
  "strip_class P s = rev (dropWhile P (rev (dropWhile P s)))"

definition strip :: "pystr \<Rightarrow> pystr" where
  "strip s = strip_class is_space s"

definition strip_chars :: "pystr \<Rightarrow> pystr \<Rightarrow> pystr" where
  "strip_chars chars s = strip_class (\<lambda>c. c \<in> set chars) s"

text \<open>
  \<open>s.splitlines()\<close>: the scan of CPython, with the characters of the current line kept in
  reverse in \<open>cur\<close>. A line ends at a line boundary, CR LF counting as one boundary; what
  follows the last boundary is a line only when it is not empty.
\<close>

fun splitlines_from :: "pystr \<Rightarrow> pystr \<Rightarrow> pystr list" where
  "splitlines_from cur [] = (if cur = [] then [] else [rev cur])"
| "splitlines_from cur [c] =
     (if is_linebreak c then [rev cur] else [rev (c # cur)])"
| "splitlines_from cur (c # d # s) =
     (if is_linebreak c
      then rev cur # (if c = 13 \<and> d = 10 then splitlines_from [] s
                      else splitlines_from [] (d # s))
      else splitlines_from (c # cur) (d # s))"

definition splitlines :: "pystr \<Rightarrow> pystr list" where
  "splitlines s = splitlines_from [] s"

text \<open>\<open>sep.join(xs)\<close>.\<close>

fun join :: "pystr \<Rightarrow> pystr list \<Rightarrow> pystr" where
  "join sep [] = []"
| "join sep [x] = x"
| "join sep (x # y # xs) = x @ sep @ join sep (y # xs)"

section \<open>Regular expressions\<close>

text \<open>
  The fragment of \<open>re\<close> that \<open>LINE_CLEAN_RE\<close> is written in: the anchor \<open>^\<close>, a character
  class under \<open>*\<close> or \<open>+\<close>, \<open>?\<close>, alternation and concatenation. A matcher state is the
  position in the subject and the text from there on. \<open>re_match\<close> lists the states a
  backtracking matcher can end in, in the order it tries them: greedy repetition tries the
  longest run first, \<open>?\<close> tries its body before skipping it, \<open>|\<close> tries the left branch
  first. The match the engine reports is the first of the list.
\<close>

datatype regex =
    Line_start
  | Star "codepoint \<Rightarrow> bool"
  | Plus "codepoint \<Rightarrow> bool"
  | Opt regex
  | Alt regex regex
  | Seq regex regex

fun re_match :: "regex \<Rightarrow> nat \<times> pystr \<Rightarrow> (nat \<times> pystr) list" where
  "re_match Line_start (i, s) = (if i = 0 then [(i, s)] else [])"
| "re_match (Star P) (i, s) =
     map (\<lambda>k. (i + k, drop k s)) (rev [0 ..< Suc (length (takeWhile P s))])"
| "re_match (Plus P) (i, s) =
     map (\<lambda>k. (i + k, drop k s)) (rev [1 ..< Suc (length (takeWhile P s))])"
| "re_match (Opt r) st = re_match r st @ [st]"
| "re_match (Alt r1 r2) st = re_match r1 st @ re_match r2 st"
| "re_match (Seq r1 r2) st = concat (map (re_match r2) (re_match r1 st))"

text \<open>
  \<open>pattern.sub("", s, count=1)\<close>: the leftmost match is searched from position 0 on, the
  text before it is kept, the matched text is removed, and the rest follows unchanged. With
  no match the string is returned as it is. \<open>pre\<close> is the text before the position tried,
  in reverse.
\<close>

fun re_sub_from :: "regex \<Rightarrow> pystr \<Rightarrow> pystr \<Rightarrow> pystr" where
  "re_sub_from r pre [] =
     (case re_match r (length pre, []) of [] \<Rightarrow> rev pre | (j, rest) # _ \<Rightarrow> rev pre @ rest)"
| "re_sub_from r pre (c # s) =
     (case re_match r (length pre, c # s) of
        [] \<Rightarrow> re_sub_from r (c # pre) s
      | (j, rest) # _ \<Rightarrow> rev pre @ rest)"

definition re_sub_first :: "regex \<Rightarrow> pystr \<Rightarrow> pystr" where
  "re_sub_first r s = re_sub_from r [] s"

section \<open>Helpers of the application\<close>

text \<open>
  \<^verbatim>\<open>LINE_CLEAN_RE = re.compile(r"^\s*(?:[\u2022\-\*\u2013\u2014]+|\d+[.)\-\u2022]*)?\s*")\<close>:
  optional whitespace, then optionally either a run of the glyphs bullet, hyphen, asterisk,
  en dash, em dash, or a run of decimal digits followed by any number (also none) of the
  characters full stop, closing parenthesis, hyphen, bullet; then optional whitespace.
\<close>

definition is_bullet :: "codepoint \<Rightarrow> bool" where
  "is_bullet c = (c = 8226 \<or> c = 45 \<or> c = 42 \<or> c = 8211 \<or> c = 8212)"

definition is_number_suffix :: "codepoint \<Rightarrow> bool" where
  "is_number_suffix c = (c = 46 \<or> c = 41 \<or> c = 45 \<or> c = 8226)"

definition LINE_CLEAN_RE :: regex where
  "LINE_CLEAN_RE =
     Seq Line_start
       (Seq (Star is_space)
          (Seq (Opt (Alt (Plus is_bullet) (Seq (Plus is_decimal) (Star is_number_suffix))))
             (Star is_space)))"

text \<open>
  What the optional group of \<open>LINE_CLEAN_RE\<close> takes from the start of a text: a run of
  bullet glyphs, or a run of decimal digits with the run of suffix characters after it, or
  nothing. \<open>starts_with_marker\<close> tells whether the group takes anything. Lemma
  \<open>line_clean_sub\<close> below derives both from the pattern.
\<close>

definition strip_marker :: "pystr \<Rightarrow> pystr" where
  "strip_marker t =
     (case t of
        [] \<Rightarrow> []
      | c # _ \<Rightarrow>
          if is_bullet c then dropWhile is_bullet t
          else if is_decimal c then dropWhile is_number_suffix (dropWhile is_decimal t)
          else t)"

definition starts_with_marker :: "pystr \<Rightarrow> bool" where
  "starts_with_marker t = (case t of [] \<Rightarrow> False | c # _ \<Rightarrow> is_bullet c \<or> is_decimal c)"

text \<open>
  The list marker as the specification words it, to be compared with the pattern of the
  source: a text starts with a marker when it starts with a bullet glyph (hyphen, asterisk,
  bullet, en dash, em dash), or with a run of decimal digits that is followed by a full
  stop, a closing parenthesis, a hyphen or a bullet. Digits with none of these four
  characters after them are no marker in this reading.
\<close>

definition spec_starts_with_marker :: "pystr \<Rightarrow> bool" where
  "spec_starts_with_marker t =
     (case t of
        [] \<Rightarrow> False
      | c # _ \<Rightarrow>
          is_bullet c \<or>
          (is_decimal c \<and>
           (case dropWhile is_decimal t of [] \<Rightarrow> False | e # _ \<Rightarrow> is_number_suffix e)))"

text \<open>
  \<open>QUOTE_CLEAN_CHARS\<close>: the straight double and single quote, the curly double quotes
  U+201C and U+201D, the curly single quotes U+2018 and U+2019, and the backtick.
  \<open>MAX_MENU_ITEMS = 6\<close>.
\<close>

definition QUOTE_CLEAN_CHARS :: pystr where
  "QUOTE_CLEAN_CHARS = [34, 39, 8220, 8221, 8216, 8217, 96]"

definition MAX_MENU_ITEMS :: nat where
  "MAX_MENU_ITEMS = 6"

text \<open>
  The loop of \<open>normalize_lines\<close> over the lines, \<open>cleaned\<close> being the list built so far.
\<close>

fun clean_lines :: "pystr list \<Rightarrow> pystr list \<Rightarrow> pystr list" where
  "clean_lines cleaned [] = cleaned"
| "clean_lines cleaned (raw_line # rest) =
     (let stripped = strip raw_line in
      if stripped = [] then clean_lines cleaned rest
      else
        let normalized = strip (re_sub_first LINE_CLEAN_RE stripped) in
        if normalized \<noteq> [] then clean_lines (cleaned @ [normalized]) rest
        else clean_lines cleaned rest)"

text \<open>
  \<open>list(dict.fromkeys(xs))\<close>: the keys of a dictionary in insertion order, so the first
  occurrence of each entry, in order. \<open>keys\<close> is the key list built so far.
\<close>

fun fromkeys_from :: "'a list \<Rightarrow> 'a list \<Rightarrow> 'a list" where
  "fromkeys_from keys [] = keys"
| "fromkeys_from keys (x # xs) =
     (if x \<in> set keys then fromkeys_from keys xs else fromkeys_from (keys @ [x]) xs)"

definition fromkeys :: "'a list \<Rightarrow> 'a list" where
  "fromkeys xs = fromkeys_from [] xs"

definition normalize_lines :: "pystr option \<Rightarrow> pystr list" where
  "normalize_lines text =
     (case text of
        None \<Rightarrow> []
      | Some t \<Rightarrow>
          if t = [] then []
          else
            let cleaned = clean_lines [] (splitlines t);
                deduped = fromkeys cleaned
            in take MAX_MENU_ITEMS deduped)"

definition clean_restaurant_name :: "pystr option \<Rightarrow> pystr" where
  "clean_restaurant_name name =
     (case name of
        None \<Rightarrow> []
      | Some n \<Rightarrow>
          if n = [] then []
          else
            let cleaned = strip n;
                cleaned = strip_chars QUOTE_CLEAN_CHARS cleaned
            in strip cleaned)"

text \<open>\<open>str(n)\<close> for a natural number: its decimal digits.\<close>

fun str_nat :: "nat \<Rightarrow> pystr" where
  "str_nat n = (if n < 10 then [48 + n] else str_nat (n div 10) @ [48 + n mod 10])"

declare str_nat.simps [simp del]

definition to_display_list :: "pystr list \<Rightarrow> pystr \<Rightarrow> pystr" where
  "to_display_list items style =
     (if style = ascii ''Bullets'' then join [10] (map (\<lambda>x. ascii ''- '' @ x) items)
      else if style = ascii ''Numbered''
      then join [10] (map (\<lambda>(i, x). str_nat (i + 1) @ ascii ''. '' @ x)
                        (zip [0 ..< length items] items))
      else join [10] items)"

text \<open>
  \<open>to_export_v2\<close>; \<open>drinks or []\<close> turns an absent list into the empty one, and \<open>parts\<close> is
  the list the source appends to.
\<close>

definition to_export_v2 ::
  "pystr \<Rightarrow> pystr list \<Rightarrow> pystr \<Rightarrow> pystr \<Rightarrow> pystr \<Rightarrow> pystr list option \<Rightarrow> pystr" where
  "to_export_v2 name items fmt slogan description drinks =
     (let drinks = (case drinks of None \<Rightarrow> [] | Some ds \<Rightarrow> ds) in
      if fmt = ascii ''Markdown'' then
        let parts = [];
            parts = parts @ [ascii ''## '' @ name];
            parts = (if slogan \<noteq> [] then parts @ [ascii ''*'' @ slogan @ ascii ''*''] else parts);
            parts = (if description \<noteq> [] then parts @ [description] else parts);
            parts = parts @ [ascii ''\<newline>### Menu Items''];
            parts = parts @ [join [10] (map (\<lambda>x. ascii ''- '' @ x) items)];
            parts = parts @ [ascii ''\<newline>### Drinks''];
            parts = (if drinks \<noteq> []
                     then parts @ [join [10] (map (\<lambda>x. ascii ''- '' @ x) drinks)]
                     else parts @ [ascii ''_(none)_''])
        in strip (join (ascii ''\<newline>\<newline>'') parts)
      else
        let parts = [name];
            parts = (if slogan \<noteq> [] then parts @ [slogan] else parts);
            parts = (if description \<noteq> [] then parts @ [description] else parts);
            parts = parts @ [ascii ''\<newline>Menu Items''];
            parts = parts @ items;
            parts = parts @ [ascii ''\<newline>Drinks''];
            parts = parts @ (if drinks \<noteq> [] then drinks else [ascii ''(none)''])
        in strip (join [10] parts))"

section \<open>The chain of model calls\<close>

text \<open>
  A dictionary of the chain maps the keys \<open>cuisine\<close>, \<open>restaurant_name\<close>, \<open>menu_items\<close>,
  \<open>drink_items\<close>, \<open>slogan\<close>, \<open>description\<close> to strings. What can go wrong: the model call
  raises (with a cause of the model's own), a prompt template misses a variable, or the
  handler raises one of its two \<open>ValueError\<close>s: "No restaurant name was returned by the
  model." (\<open>Empty_name\<close>) and "No menu items were returned by the model." (\<open>Empty_menu\<close>).
\<close>

type_synonym pydict = "string \<rightharpoonup> pystr"

datatype 'e error = Upstream 'e | KeyError string | Empty_name | Empty_menu

text \<open>
  The model is called with a prompt and answers with text or raises; it may keep state of
  its own (time, sampling, quota), so a call takes the state and returns the next one. The
  world a chain runs in is the model's state and the log of the prompts sent so far.
\<close>

type_synonym ('s, 'e) llm = "pystr \<Rightarrow> 's \<Rightarrow> ('e + pystr) \<times> 's"
type_synonym 's world = "'s \<times> pystr list"
type_synonym ('s, 'e, 'a) run = "'s world \<Rightarrow> ('e error + 'a) \<times> 's world"

definition invoke_llm :: "('s, 'e) llm \<Rightarrow> pystr \<Rightarrow> ('s, 'e, pystr) run" where
  "invoke_llm llm prompt w =
     (case llm prompt (fst w) of
        (Inl e, s') \<Rightarrow> (Inl (Upstream e), (s', snd w @ [prompt]))
      | (Inr t, s') \<Rightarrow> (Inr t, (s', snd w @ [prompt])))"

text \<open>A model without state: the same prompt gets the same answer.\<close>

definition stateless :: "(pystr \<Rightarrow> 'e + pystr) \<Rightarrow> (unit, 'e) llm" where
  "stateless f = (\<lambda>prompt s. (f prompt, s))"

text \<open>
  A \<open>PromptTemplate\<close> is its text with the variables in braces; formatting fills each
  variable from the dictionary and raises \<open>KeyError\<close> on a missing one.
\<close>

datatype template_part = Lit pystr | Var string

fun format_template :: "template_part list \<Rightarrow> pydict \<Rightarrow> 'e error + pystr" where
  "format_template [] d = Inr []"
| "format_template (Lit t # ps) d =
     (case format_template ps d of Inl e \<Rightarrow> Inl e | Inr r \<Rightarrow> Inr (t @ r))"
| "format_template (Var k # ps) d =
     (case d k of
        None \<Rightarrow> Inl (KeyError k)
      | Some v \<Rightarrow> (case format_template ps d of Inl e \<Rightarrow> Inl e | Inr r \<Rightarrow> Inr (v @ r)))"

definition name_prompt :: "template_part list" where
  "name_prompt =
     [Lit (ascii ''You are a brand consultant. Give a short, catchy, brandable restaurant name for ''),
      Var ''cuisine'',
      Lit (ascii '' cuisine. Return ONLY the name, no quotes or extra text.'')]"

definition menu_prompt :: "template_part list" where
  "menu_prompt =
     [Lit (ascii ''List 6 popular menu items for a ''), Var ''cuisine'',
      Lit (ascii '' restaurant named ''), Var ''restaurant_name'',
      Lit (ascii ''. Return one item per line, no numbering.'')]"

definition drinks_prompt :: "template_part list" where
  "drinks_prompt =
     [Lit (ascii ''List 6 popular drink items for a ''), Var ''cuisine'',
      Lit (ascii '' restaurant named ''), Var ''restaurant_name'',
      Lit (ascii ''. Include at least 2 non-alcoholic options. Return one item per line, no numbering.'')]"

definition slogan_prompt :: "template_part list" where
  "slogan_prompt =
     [Lit (ascii ''You are a brand copywriter. Create a short, catchy slogan (max 6 words) for a ''),
      Var ''cuisine'', Lit (ascii '' restaurant named ''), Var ''restaurant_name'',
      Lit (ascii ''. Return ONLY the slogan.'')]"

definition description_prompt :: "template_part list" where
  "description_prompt =
     [Lit (ascii ''Write a warm, vivid, 2'' @ [8211] @ ascii ''3 sentence description for a ''),
      Var ''cuisine'', Lit (ascii '' restaurant named ''), Var ''restaurant_name'',
      Lit (ascii ''. Avoid clich'' @ [233] @ ascii ''s. No markdown or extra headings.'')]"

text \<open>
  The text of a template whose variables are \<open>cuisine\<close> and \<open>restaurant_name\<close>, with
  the two filled in.
\<close>

definition filled :: "template_part list \<Rightarrow> pystr \<Rightarrow> pystr \<Rightarrow> pystr" where
  "filled prompt cuisine restaurant_name =
     concat (map (\<lambda>p. case p of
                         Lit t \<Rightarrow> t
                       | Var k \<Rightarrow> if k = ''cuisine'' then cuisine else restaurant_name)
                 prompt)"

text \<open>
  \<open>prompt | llm | parser\<close>: the template is formatted from the input dictionary, the model
  is called with the prompt, and the parser returns the text of the answer.
\<close>

definition prompt_llm_parser ::
  "template_part list \<Rightarrow> ('s, 'e) llm \<Rightarrow> pydict \<Rightarrow> ('s, 'e, pystr) run" where
  "prompt_llm_parser prompt llm inputs w =
     (case format_template prompt inputs of
        Inl e \<Rightarrow> (Inl e, w)
      | Inr p \<Rightarrow> invoke_llm llm p w)"

definition name_chain :: "('s, 'e) llm \<Rightarrow> pydict \<Rightarrow> ('s, 'e, pystr) run" where
  "name_chain llm = prompt_llm_parser name_prompt llm"

definition menu_chain :: "('s, 'e) llm \<Rightarrow> pydict \<Rightarrow> ('s, 'e, pystr) run" where
  "menu_chain llm = prompt_llm_parser menu_prompt llm"

definition drinks_chain :: "('s, 'e) llm \<Rightarrow> pydict \<Rightarrow> ('s, 'e, pystr) run" where
  "drinks_chain llm = prompt_llm_parser drinks_prompt llm"

definition slogan_chain :: "('s, 'e) llm \<Rightarrow> pydict \<Rightarrow> ('s, 'e, pystr) run" where
  "slogan_chain llm = prompt_llm_parser slogan_prompt llm"

definition description_chain :: "('s, 'e) llm \<Rightarrow> pydict \<Rightarrow> ('s, 'e, pystr) run" where
  "description_chain llm = prompt_llm_parser description_prompt llm"

text \<open>\<open>d.get(k, "")\<close>\<close>

definition get_or_empty :: "pydict \<Rightarrow> string \<Rightarrow> pystr" where
  "get_or_empty d k = (case d k of None \<Rightarrow> [] | Some v \<Rightarrow> v)"

definition build_menu :: "('s, 'e) llm \<Rightarrow> pydict \<Rightarrow> ('s, 'e, pystr) run" where
  "build_menu llm inputs =
     (let prompt_inputs =
            [''cuisine'' \<mapsto> get_or_empty inputs ''cuisine'',
             ''restaurant_name'' \<mapsto> get_or_empty inputs ''restaurant_name'']
      in menu_chain llm prompt_inputs)"

definition build_drinks :: "('s, 'e) llm \<Rightarrow> pydict \<Rightarrow> ('s, 'e, pystr) run" where
  "build_drinks llm inputs =
     (let prompt_inputs =
            [''cuisine'' \<mapsto> get_or_empty inputs ''cuisine'',
             ''restaurant_name'' \<mapsto> get_or_empty inputs ''restaurant_name'']
      in drinks_chain llm prompt_inputs)"

text \<open>
  \<open>.assign(key=runnable)\<close> runs the runnable on the input dictionary and returns the
  dictionary with the key set to the result. A chain of \<open>.assign\<close> calls is a sequence:
  each step gets the dictionary of the step before, and the first step that raises ends the
  run.
\<close>

type_synonym ('s, 'e) step = "string \<times> (pydict \<Rightarrow> ('s, 'e, pystr) run)"

fun run_assigns :: "('s, 'e) step list \<Rightarrow> pydict \<Rightarrow> ('s, 'e, pydict) run" where
  "run_assigns [] d w = (Inr d, w)"
| "run_assigns ((key, runnable) # steps) d w =
     (case runnable d w of
        (Inl e, w') \<Rightarrow> (Inl e, w')
      | (Inr v, w') \<Rightarrow> run_assigns steps (d(key \<mapsto> v)) w')"

definition name_step :: "('s, 'e) llm \<Rightarrow> ('s, 'e) step" where
  "name_step llm = (''restaurant_name'', name_chain llm)"

definition menu_step :: "('s, 'e) llm \<Rightarrow> ('s, 'e) step" where
  "menu_step llm = (''menu_items'', build_menu llm)"

definition drinks_step :: "('s, 'e) llm \<Rightarrow> ('s, 'e) step" where
  "drinks_step llm = (''drink_items'', build_drinks llm)"

definition slogan_step :: "('s, 'e) llm \<Rightarrow> ('s, 'e) step" where
  "slogan_step llm = (''slogan'', slogan_chain llm)"

definition description_step :: "('s, 'e) llm \<Rightarrow> ('s, 'e) step" where
  "description_step llm = (''description'', description_chain llm)"

definition build_chain :: "('s, 'e) llm \<Rightarrow> pydict \<Rightarrow> ('s, 'e, pydict) run" where
  "build_chain llm =
     run_assigns
       [name_step llm, menu_step llm, drinks_step llm, slogan_step llm, description_step llm]"

section \<open>The handler of the Generate button\<close>

text \<open>
  What the handler holds once its two checks have passed: \<open>rest_name\<close>, \<open>items\<close>, \<open>drinks\<close>,
  \<open>slogan\<close> and \<open>description\<close>.
\<close>

record generation =
  rest_name :: pystr
  menu :: "pystr list"
  drink_list :: "pystr list"
  slogan_text :: pystr
  description_text :: pystr

text \<open>The lines after \<open>chain.invoke\<close>: cleaning, then the two checks, in the source's order.\<close>

definition validate :: "pydict \<Rightarrow> 'e error + generation" where
  "validate res =
     (let name = clean_restaurant_name (res ''restaurant_name'');
          items = normalize_lines (res ''menu_items'');
          drinks = normalize_lines (res ''drink_items'');
          slogan = strip (get_or_empty res ''slogan'');
          description = strip (get_or_empty res ''description'')
      in if name = [] then Inl Empty_name
         else if items = [] then Inl Empty_menu
         else Inr \<lparr>rest_name = name, menu = items, drink_list = drinks,
                   slogan_text = slogan, description_text = description\<rparr>)"

text \<open>
  The handler with the chain as a parameter: \<open>res = chain.invoke({"cuisine": cuisine})\<close>
  and the lines after it. \<open>generate\<close> is the handler as the source runs it, on
  \<open>build_chain(llm)\<close>.
\<close>

definition generate_with ::
  "(pydict \<Rightarrow> ('s, 'e, pydict) run) \<Rightarrow> pystr \<Rightarrow> ('s, 'e, generation) run" where
  "generate_with chain cuisine w =
     (case chain [''cuisine'' \<mapsto> cuisine] w of
        (Inl e, w') \<Rightarrow> (Inl e, w')
      | (Inr res, w') \<Rightarrow> (validate res, w'))"

definition generate :: "('s, 'e) llm \<Rightarrow> pystr \<Rightarrow> ('s, 'e, generation) run" where
  "generate llm = generate_with (build_chain llm)"

lemmas string_defs =
  ascii_def is_space_def is_linebreak_def is_decimal_def decimal_zeros_def strip_class_def
  strip_def strip_chars_def splitlines_def

lemmas helper_defs =
  is_bullet_def is_number_suffix_def LINE_CLEAN_RE_def re_sub_first_def QUOTE_CLEAN_CHARS_def
  MAX_MENU_ITEMS_def fromkeys_def normalize_lines_def clean_restaurant_name_def

lemmas eval_defs = string_defs helper_defs Let_def

section \<open>Properties of the Python string operations\<close>

lemma strip_class_no_lead: "dropWhile P (strip_class P s) = strip_class P s"
proof (cases "dropWhile P s = []")
  case True
  show ?thesis unfolding strip_class_def True by simp
next
  case False
  define a where "a = dropWhile P s"
  have na: "a \<noteq> []" and hd: "\<not> P (hd a)"
    using False hd_dropWhile [of P s] by (simp_all add: a_def)
  have "a = rev (dropWhile P (rev a)) @ rev (takeWhile P (rev a))"
    by (metis rev_append rev_rev_ident takeWhile_dropWhile_id)
  moreover have "dropWhile P (rev a) \<noteq> []"
    using na hd by (metis dropWhile_eq_Nil_conv hd_in_set set_rev)
  ultimately have "hd (rev (dropWhile P (rev a))) = hd a"
    by (metis hd_append2 rev_is_Nil_conv)
  with hd show ?thesis
    unfolding strip_class_def a_def [symmetric]
    by (simp add: dropWhile_eq_self_iff)
qed

lemma strip_class_dropWhile: "strip_class P (dropWhile P s) = strip_class P s"
  by (simp add: strip_class_def)

lemma strip_class_no_trail: "dropWhile P (rev (strip_class P s)) = rev (strip_class P s)"
  by (simp add: strip_class_def)

lemma strip_class_idem: "strip_class P (strip_class P s) = strip_class P s"
proof -
  have "strip_class P (strip_class P s) =
      rev (dropWhile P (rev (dropWhile P (strip_class P s))))"
    by (simp add: strip_class_def)
  also have "\<dots> = rev (dropWhile P (rev (strip_class P s)))"
    by (simp only: strip_class_no_lead)
  also have "\<dots> = strip_class P s"
    by (simp only: strip_class_no_trail rev_rev_ident)
  finally show ?thesis .
qed

lemma set_strip_class: "set (strip_class P s) \<subseteq> set s"
  unfolding strip_class_def
  by (metis set_dropWhileD set_rev subsetI)

lemma splitlines_from_step:
  "\<not> is_linebreak c \<Longrightarrow> splitlines_from cur (c # s) = splitlines_from (c # cur) s"
  by (cases s) simp_all

lemma splitlines_from_newline:
  "splitlines_from cur (10 # s) = rev cur # splitlines_from [] s"
  by (cases s) (simp_all add: is_linebreak_def)

lemma splitlines_from_line:
  "\<forall>c \<in> set e. \<not> is_linebreak c \<Longrightarrow>
   splitlines_from cur (e @ s) = splitlines_from (rev e @ cur) s"
  by (induction e arbitrary: cur) (simp_all add: splitlines_from_step)

lemma splitlines_join:
  "\<forall>e \<in> set es. e \<noteq> [] \<and> (\<forall>c \<in> set e. \<not> is_linebreak c) \<Longrightarrow>
   splitlines (join [10] es) = es"
proof (induction es)
  case Nil
  show ?case by (simp add: splitlines_def)
next
  case (Cons x es)
  show ?case
  proof (cases es)
    case Nil
    with Cons.prems show ?thesis
      using splitlines_from_line [of x "[]" "[]"] by (simp add: splitlines_def)
  next
    case (Cons y ys)
    with Cons.prems Cons.IH show ?thesis
      using splitlines_from_line [of x "[]" "10 # join [10] (y # ys)"]
      by (simp add: splitlines_def splitlines_from_newline)
  qed
qed

lemma splitlines_from_no_linebreak:
  "\<forall>c \<in> set cur. \<not> is_linebreak c \<Longrightarrow> l \<in> set (splitlines_from cur s) \<Longrightarrow>
   c \<in> set l \<Longrightarrow> \<not> is_linebreak c"
  by (induction cur s arbitrary: l rule: splitlines_from.induct)
     (auto split: if_splits)

lemma join_eq_Nil: "[] \<notin> set es \<Longrightarrow> (join sep es = []) = (es = [])"
  by (induction sep es rule: join.induct) auto

section \<open>What \<open>LINE_CLEAN_RE\<close> matches\<close>

lemma re_match_Star_first:
  "\<exists>ms. re_match (Star P) (i, s) = (i + length (takeWhile P s), dropWhile P s) # ms"
  by (simp add: dropWhile_eq_drop)

lemma re_match_Plus_first:
  "P c \<Longrightarrow> \<exists>ms. re_match (Plus P) (i, c # s) =
      (i + length (takeWhile P (c # s)), dropWhile P (c # s)) # ms"
proof -
  assume "P c"
  then have "[1 ..< Suc (length (takeWhile P (c # s)))] =
    [1 ..< length (takeWhile P (c # s))] @ [length (takeWhile P (c # s))]"
    by simp
  then show ?thesis
    by (simp del: upt_Suc takeWhile.simps dropWhile.simps add: dropWhile_eq_drop)
qed

lemma re_match_Plus_none:
  "s = [] \<or> \<not> P (hd s) \<Longrightarrow> re_match (Plus P) (i, s) = []"
  by (cases s) auto

lemma re_match_Seq_first:
  "re_match r1 st = x # xs \<Longrightarrow> re_match r2 x = y # ys \<Longrightarrow>
   \<exists>ms. re_match (Seq r1 r2) st = y # ms"
  by simp

lemma re_match_marker_group:
  "\<exists>j ms. re_match (Opt (Alt (Plus is_bullet) (Seq (Plus is_decimal) (Star is_number_suffix))))
      (i, t) = (j, strip_marker t) # ms"
proof (cases t)
  case Nil
  then show ?thesis by (simp add: strip_marker_def)
next
  case (Cons c u)
  show ?thesis
  proof (cases "is_bullet c")
    case True
    from True re_match_Plus_first [of is_bullet c i u] obtain ms where
      "re_match (Plus is_bullet) (i, c # u) =
         (i + length (takeWhile is_bullet (c # u)), dropWhile is_bullet (c # u)) # ms"
      by blast
    with True Cons show ?thesis
      by (simp add: strip_marker_def del: re_match.simps(3))
  next
    case nb: False
    then have b: "re_match (Plus is_bullet) (i, c # u) = []"
      by (simp add: re_match_Plus_none)
    show ?thesis
    proof (cases "is_decimal c")
      case True
      from True re_match_Plus_first [of is_decimal c i u] obtain ms where
        d: "re_match (Plus is_decimal) (i, c # u) =
           (i + length (takeWhile is_decimal (c # u)), dropWhile is_decimal (c # u)) # ms"
        by blast
      obtain ms' where
        s: "re_match (Star is_number_suffix)
              (i + length (takeWhile is_decimal (c # u)), dropWhile is_decimal (c # u)) =
            (i + length (takeWhile is_decimal (c # u)) +
               length (takeWhile is_number_suffix (dropWhile is_decimal (c # u))),
             dropWhile is_number_suffix (dropWhile is_decimal (c # u))) # ms'"
        using re_match_Star_first by blast
      from re_match_Seq_first [OF d s] obtain ms'' where
        "re_match (Seq (Plus is_decimal) (Star is_number_suffix)) (i, c # u) =
           (i + length (takeWhile is_decimal (c # u)) +
               length (takeWhile is_number_suffix (dropWhile is_decimal (c # u))),
             dropWhile is_number_suffix (dropWhile is_decimal (c # u))) # ms''"
        by blast
      with b nb True Cons show ?thesis
        by (simp add: strip_marker_def del: re_match.simps(2,3,6) dropWhile.simps takeWhile.simps)
    next
      case False
      then have "re_match (Plus is_decimal) (i, c # u) = []"
        by (simp add: re_match_Plus_none)
      with b nb False Cons show ?thesis
        by (simp add: strip_marker_def del: re_match.simps(2,3))
    qed
  qed
qed

lemma re_match_LINE_CLEAN_RE:
  "\<exists>j ms. re_match LINE_CLEAN_RE (0, s) =
      (j, dropWhile is_space (strip_marker (dropWhile is_space s))) # ms"
proof -
  obtain ms1 where 1: "re_match (Star is_space) (0, s) =
      (0 + length (takeWhile is_space s), dropWhile is_space s) # ms1"
    using re_match_Star_first by blast
  obtain j ms2 where 2:
    "re_match (Opt (Alt (Plus is_bullet) (Seq (Plus is_decimal) (Star is_number_suffix))))
       (0 + length (takeWhile is_space s), dropWhile is_space s) =
     (j, strip_marker (dropWhile is_space s)) # ms2"
    using re_match_marker_group by blast
  obtain ms3 where 3: "re_match (Star is_space) (j, strip_marker (dropWhile is_space s)) =
      (j + length (takeWhile is_space (strip_marker (dropWhile is_space s))),
       dropWhile is_space (strip_marker (dropWhile is_space s))) # ms3"
    using re_match_Star_first by blast
  from re_match_Seq_first [OF 2 3] obtain ms4 where 4:
    "re_match (Seq (Opt (Alt (Plus is_bullet) (Seq (Plus is_decimal) (Star is_number_suffix))))
        (Star is_space)) (0 + length (takeWhile is_space s), dropWhile is_space s) =
     (j + length (takeWhile is_space (strip_marker (dropWhile is_space s))),
       dropWhile is_space (strip_marker (dropWhile is_space s))) # ms4"
    by blast
  from re_match_Seq_first [OF 1 4] obtain ms5 where 5:
    "re_match (Seq (Star is_space)
        (Seq (Opt (Alt (Plus is_bullet) (Seq (Plus is_decimal) (Star is_number_suffix))))
           (Star is_space))) (0, s) =
     (j + length (takeWhile is_space (strip_marker (dropWhile is_space s))),
       dropWhile is_space (strip_marker (dropWhile is_space s))) # ms5"
    by blast
  have 0: "re_match Line_start (0, s) = [(0, s)]" by simp
  from re_match_Seq_first [OF 0 5] show ?thesis
    unfolding LINE_CLEAN_RE_def by blast
qed

lemma line_clean_sub:
  "re_sub_first LINE_CLEAN_RE s = dropWhile is_space (strip_marker (dropWhile is_space s))"
proof -
  obtain j ms where "re_match LINE_CLEAN_RE (0, s) =
      (j, dropWhile is_space (strip_marker (dropWhile is_space s))) # ms"
    using re_match_LINE_CLEAN_RE by blast
  then show ?thesis
    by (cases s) (simp_all add: re_sub_first_def)
qed

lemma set_strip_marker: "set (strip_marker t) \<subseteq> set t"
  by (auto simp: strip_marker_def split: list.splits dest: set_dropWhileD)

lemma strip_marker_id: "\<not> starts_with_marker t \<Longrightarrow> strip_marker t = t"
  by (auto simp: strip_marker_def starts_with_marker_def split: list.splits)

lemma length_dropWhile_less: "P x \<Longrightarrow> length (dropWhile P (x # xs)) < length (x # xs)"
  by (simp add: le_imp_less_Suc length_dropWhile_le)

lemma strip_marker_shorter: "starts_with_marker t \<Longrightarrow> length (strip_marker t) < length t"
proof (cases t)
  case Nil
  assume "starts_with_marker t"
  with Nil show ?thesis by (simp add: starts_with_marker_def)
next
  case (Cons c u)
  assume m: "starts_with_marker t"
  show ?thesis
  proof (cases "is_bullet c")
    case True
    with Cons show ?thesis
      using length_dropWhile_less [of is_bullet c u] by (simp add: strip_marker_def)
  next
    case False
    with m Cons have d: "is_decimal c" by (simp add: starts_with_marker_def)
    have "length (dropWhile is_number_suffix (dropWhile is_decimal (c # u)))
        \<le> length (dropWhile is_decimal (c # u))"
      by (rule length_dropWhile_le)
    also have "\<dots> < length (c # u)"
      using d by (rule length_dropWhile_less)
    finally show ?thesis
      using Cons False d by (simp add: strip_marker_def)
  qed
qed

text \<open>
  One line of \<open>normalize_lines\<close>: the line is stripped, so the pattern finds no whitespace
  before the marker, and the whitespace it removes after the marker would go with the second
  \<open>strip\<close> anyway.
\<close>

lemma normalized_line:
  "strip (re_sub_first LINE_CLEAN_RE (strip l)) = strip (strip_marker (strip l))"
  by (simp add: line_clean_sub strip_def strip_class_no_lead strip_class_dropWhile)

text \<open>
  On a stripped text the pattern removes nothing exactly when the text does not start with
  a bullet glyph or a decimal digit.
\<close>

lemma no_marker_iff:
  "strip e = e \<Longrightarrow> (re_sub_first LINE_CLEAN_RE e = e) = (\<not> starts_with_marker e)"
proof
  assume s: "strip e = e" and f: "re_sub_first LINE_CLEAN_RE e = e"
  have e: "dropWhile is_space e = e"
    using s strip_class_no_lead [of is_space e] by (simp add: strip_def)
  show "\<not> starts_with_marker e"
  proof
    assume "starts_with_marker e"
    then have "length (strip_marker e) < length e" by (rule strip_marker_shorter)
    moreover have "length (dropWhile is_space (strip_marker e)) \<le> length (strip_marker e)"
      by (rule length_dropWhile_le)
    ultimately show False using f e by (simp add: line_clean_sub)
  qed
next
  assume s: "strip e = e" and n: "\<not> starts_with_marker e"
  have e: "dropWhile is_space e = e"
    using s strip_class_no_lead [of is_space e] by (simp add: strip_def)
  show "re_sub_first LINE_CLEAN_RE e = e"
    by (simp add: line_clean_sub e strip_marker_id [OF n])
qed

section \<open>Properties of \<open>normalize_lines\<close>\<close>

lemma clean_lines_no_empty:
  "[] \<notin> set cleaned \<Longrightarrow> [] \<notin> set (clean_lines cleaned ls)"
  by (induction ls arbitrary: cleaned) (auto simp: Let_def)

lemma clean_lines_eq:
  "clean_lines cleaned ls =
     cleaned @ filter (\<lambda>e. e \<noteq> [])
       (map (\<lambda>l. strip (re_sub_first LINE_CLEAN_RE (strip l))) ls)"
proof (induction ls arbitrary: cleaned)
  case Nil
  show ?case by simp
next
  case (Cons l ls)
  have "strip (re_sub_first LINE_CLEAN_RE []) = []"
    by (simp add: line_clean_sub strip_marker_def strip_def strip_class_def)
  then show ?case
    by (auto simp: Cons.IH Let_def)
qed

lemma fromkeys_from_distinct:
  "distinct keys \<Longrightarrow> distinct (fromkeys_from keys xs)"
  by (induction xs arbitrary: keys) auto

lemma fromkeys_from_set:
  "set (fromkeys_from keys xs) = set keys \<union> set xs"
  by (induction xs arbitrary: keys) auto

lemma fromkeys_distinct: "distinct (fromkeys xs)"
  by (simp add: fromkeys_def fromkeys_from_distinct)

lemma fromkeys_set: "set (fromkeys xs) = set xs"
  by (simp add: fromkeys_def fromkeys_from_set)

lemma fromkeys_from_id: "distinct (keys @ xs) \<Longrightarrow> fromkeys_from keys xs = keys @ xs"
  by (induction xs arbitrary: keys) auto

lemma normalize_lines_shape:
  "length (normalize_lines text) \<le> 6 \<and> distinct (normalize_lines text) \<and>
   [] \<notin> set (normalize_lines text)"
proof -
  have "[] \<notin> set (take n (fromkeys (clean_lines [] ls)))" for n ls
    using clean_lines_no_empty [of "[]" ls] set_take_subset [of n "fromkeys (clean_lines [] ls)"]
    by (auto simp: fromkeys_set)
  then show ?thesis
    by (auto simp: normalize_lines_def MAX_MENU_ITEMS_def fromkeys_distinct
             split: option.splits)
qed

lemma normalize_lines_fixed:
  assumes ne: "[] \<notin> set es"
    and lb: "\<forall>e \<in> set es. \<forall>c \<in> set e. \<not> is_linebreak c"
    and fx: "\<forall>e \<in> set es. strip (re_sub_first LINE_CLEAN_RE (strip e)) = e"
    and d: "distinct es" and len: "length es \<le> 6"
  shows "normalize_lines (Some (join [10] es)) = es"
proof (cases "es = []")
  case True
  then show ?thesis by (simp add: normalize_lines_def)
next
  case False
  with ne have j: "join [10] es \<noteq> []" by (simp add: join_eq_Nil)
  have sp: "splitlines (join [10] es) = es"
    using ne lb by (intro splitlines_join) auto
  have "map (\<lambda>l. strip (re_sub_first LINE_CLEAN_RE (strip l))) es = es"
    using fx by (simp add: map_idI)
  moreover have "filter (\<lambda>e. e \<noteq> []) es = es"
    using ne by (auto intro: filter_True)
  ultimately have cl: "clean_lines [] es = es"
    by (simp add: clean_lines_eq)
  have fk: "fromkeys es = es"
    using d by (simp add: fromkeys_def fromkeys_from_id)
  show ?thesis
    using j len by (simp add: normalize_lines_def sp cl fk MAX_MENU_ITEMS_def)
qed

lemma normalize_lines_entries:
  assumes "e \<in> set (normalize_lines (Some x))"
  shows "\<exists>l \<in> set (splitlines x). e = strip (re_sub_first LINE_CLEAN_RE (strip l))"
proof -
  from assms have "e \<in> set (take MAX_MENU_ITEMS (fromkeys (clean_lines [] (splitlines x))))"
    by (simp add: normalize_lines_def split: if_splits)
  then have "e \<in> set (clean_lines [] (splitlines x))"
    using set_take_subset fromkeys_set by fastforce
  then show ?thesis
    by (auto simp: clean_lines_eq)
qed

lemma normalized_line_no_linebreak:
  assumes "l \<in> set (splitlines x)"
    and "c \<in> set (strip (re_sub_first LINE_CLEAN_RE (strip l)))"
  shows "\<not> is_linebreak c"
proof -
  have "set (strip (strip_marker (strip l))) \<subseteq> set l"
    using set_strip_class [of is_space "strip_marker (strip l)"] set_strip_marker [of "strip l"]
      set_strip_class [of is_space l]
    by (auto simp: strip_def)
  with assms(2) have "c \<in> set l" by (auto simp: normalized_line)
  with assms(1) show ?thesis
    using splitlines_from_no_linebreak [of "[]" l x c] by (simp add: splitlines_def)
qed

lemma normalized_line_fixed:
  assumes "re_sub_first LINE_CLEAN_RE e = e" and "e = strip (re_sub_first LINE_CLEAN_RE (strip l))"
  shows "strip (re_sub_first LINE_CLEAN_RE (strip e)) = e"
proof -
  have "strip e = e"
    using assms(2) strip_class_idem [of is_space] by (simp add: strip_def)
  with assms(1) show ?thesis by simp
qed

text \<open>
  Claim C2. For every input string, and for the absent input \<open>None\<close>, \<open>normalize_lines\<close>
  returns a list of at most 6 entries, with no entry twice and no empty entry. The function
  has no failing branch: every input has a result.
\<close>

theorem normalize_lines_bounded_distinct_nonempty:
  "length (normalize_lines text) \<le> 6 \<and> distinct (normalize_lines text) \<and>
   [] \<notin> set (normalize_lines text)"
  by (rule normalize_lines_shape)

text \<open>
  Claim C3, as the source has it. On every line the pattern removes the whitespace at the
  start, then at most one marker, then the whitespace after it, where a marker is a run of
  bullet glyphs (bullet, hyphen, asterisk, en dash, em dash) or a run of decimal digits
  followed by a run, which may be empty, of full stops, closing parentheses, hyphens and
  bullets. So the digits at the start of a line are removed also when no such character
  follows them. The loop applies the pattern once to each line: what is left after one
  marker is kept, also when it starts with another marker.
\<close>

theorem line_marker_stripped_once:
  "re_sub_first LINE_CLEAN_RE s = dropWhile is_space (strip_marker (dropWhile is_space s)) \<and>
   clean_lines cleaned (raw_line # rest) =
     clean_lines
       (if strip (strip_marker (strip raw_line)) = [] then cleaned
        else cleaned @ [strip (strip_marker (strip raw_line))])
       rest"
proof
  show "re_sub_first LINE_CLEAN_RE s = dropWhile is_space (strip_marker (dropWhile is_space s))"
    by (rule line_clean_sub)
  show "clean_lines cleaned (raw_line # rest) =
     clean_lines
       (if strip (strip_marker (strip raw_line)) = [] then cleaned
        else cleaned @ [strip (strip_marker (strip raw_line))])
       rest"
    by (simp add: clean_lines_eq normalized_line del: clean_lines.simps)
qed

theorem line_marker_stripped_once_witness:
  "re_sub_first LINE_CLEAN_RE (ascii ''1. 2. Tom Yum'') = ascii ''2. Tom Yum'' \<and>
   clean_lines [] [ascii ''- - Pad Thai'', ascii ''12'', ascii ''3 Cheese Pizza''] =
     [ascii ''- Pad Thai'', ascii ''Cheese Pizza'']"
proof
  show "re_sub_first LINE_CLEAN_RE (ascii ''1. 2. Tom Yum'') = ascii ''2. Tom Yum''"
    using line_marker_stripped_once [of "ascii ''1. 2. Tom Yum''" "[]" "[]" "[]"]
    by (simp add: strip_marker_def eval_defs)
  show "clean_lines [] [ascii ''- - Pad Thai'', ascii ''12'', ascii ''3 Cheese Pizza''] =
     [ascii ''- Pad Thai'', ascii ''Cheese Pizza'']"
    by (simp add: eval_defs)
qed

text \<open>
  The claim as the specification states it fails on a line that starts with a number and a
  space: the number is removed, although none of the four suffix characters follows it.
\<close>

theorem numeric_prefix_counterexample:
  "\<not> is_number_suffix 32 \<and>
   normalize_lines (Some (ascii ''2 Eggs'')) = [ascii ''Eggs''] \<and>
   normalize_lines (Some (ascii ''2 Eggs'')) \<noteq> [ascii ''2 Eggs'']"
  by (simp add: eval_defs)

text \<open>
  Claim C4, as the source has it. Let \<open>x\<close> be a string such that no line of it, once
  stripped of its marker and trimmed, starts with anything the pattern of the source would
  strip again: the pattern removes nothing from it, which by lemma \<open>no_marker_iff\<close> says
  that it starts neither with a bullet glyph nor with a decimal digit, whatever follows
  the digit. Then \<open>normalize_lines\<close> applied to its own output, joined by newlines, returns
  that output.
\<close>

theorem normalize_lines_idempotent:
  assumes "\<forall>l \<in> set (splitlines x).
             re_sub_first LINE_CLEAN_RE (strip (re_sub_first LINE_CLEAN_RE (strip l))) =
             strip (re_sub_first LINE_CLEAN_RE (strip l))"
  shows "normalize_lines (Some (join [10] (normalize_lines (Some x)))) =
         normalize_lines (Some x)"
proof (rule normalize_lines_fixed)
  show "[] \<notin> set (normalize_lines (Some x))"
    using normalize_lines_shape by blast
  show "distinct (normalize_lines (Some x))"
    using normalize_lines_shape by blast
  show "length (normalize_lines (Some x)) \<le> 6"
    using normalize_lines_shape by blast
  show "\<forall>e \<in> set (normalize_lines (Some x)). \<forall>c \<in> set e. \<not> is_linebreak c"
    using normalize_lines_entries normalized_line_no_linebreak by blast
  show "\<forall>e \<in> set (normalize_lines (Some x)).
          strip (re_sub_first LINE_CLEAN_RE (strip e)) = e"
  proof
    fix e assume "e \<in> set (normalize_lines (Some x))"
    then obtain l where l: "l \<in> set (splitlines x)"
      and e: "e = strip (re_sub_first LINE_CLEAN_RE (strip l))"
      using normalize_lines_entries by blast
    from l assms e have "re_sub_first LINE_CLEAN_RE e = e" by simp
    then show "strip (re_sub_first LINE_CLEAN_RE (strip e)) = e"
      using e by (rule normalized_line_fixed)
  qed
qed

theorem normalize_lines_idempotent_witness:
  "normalize_lines (Some (ascii ''- Pad Thai\<newline>- Pad Thai\<newline>2. Tom Yum\<newline>\<newline>* Green Curry'')) =
     [ascii ''Pad Thai'', ascii ''Tom Yum'', ascii ''Green Curry''] \<and>
   normalize_lines (Some (join [10] (normalize_lines
     (Some (ascii ''- Pad Thai\<newline>- Pad Thai\<newline>2. Tom Yum\<newline>\<newline>* Green Curry''))))) =
   normalize_lines (Some (ascii ''- Pad Thai\<newline>- Pad Thai\<newline>2. Tom Yum\<newline>\<newline>* Green Curry''))"
proof
  show "normalize_lines (Some (ascii ''- Pad Thai\<newline>- Pad Thai\<newline>2. Tom Yum\<newline>\<newline>* Green Curry'')) =
     [ascii ''Pad Thai'', ascii ''Tom Yum'', ascii ''Green Curry'']"
    by (simp add: eval_defs)
  have h: "\<forall>l \<in> set (splitlines (ascii ''- Pad Thai\<newline>- Pad Thai\<newline>2. Tom Yum\<newline>\<newline>* Green Curry'')).
             re_sub_first LINE_CLEAN_RE (strip (re_sub_first LINE_CLEAN_RE (strip l))) =
             strip (re_sub_first LINE_CLEAN_RE (strip l))"
    by (simp add: eval_defs)
  show "normalize_lines (Some (join [10] (normalize_lines
     (Some (ascii ''- Pad Thai\<newline>- Pad Thai\<newline>2. Tom Yum\<newline>\<newline>* Green Curry''))))) =
   normalize_lines (Some (ascii ''- Pad Thai\<newline>- Pad Thai\<newline>2. Tom Yum\<newline>\<newline>* Green Curry''))"
    by (rule normalize_lines_idempotent [OF h])
qed

text \<open>
  With the marker of the specification's wording in the hypothesis the claim fails. The
  only line of \<open>- 7Up\<close> is cleaned to \<open>7Up\<close>, in which nothing is a marker in that
  wording, at the start or further on: no bullet glyph occurs, and none of the four suffix
  characters follows the digit. The first pass returns \<open>7Up\<close>, and the second pass removes
  the digit and returns \<open>Up\<close>.
\<close>

theorem idempotence_counterexample:
  "splitlines (ascii ''- 7Up'') = [ascii ''- 7Up''] \<and>
   strip (re_sub_first LINE_CLEAN_RE (strip (ascii ''- 7Up''))) = ascii ''7Up'' \<and>
   \<not> spec_starts_with_marker (ascii ''7Up'') \<and>
   \<not> spec_starts_with_marker (ascii ''Up'') \<and>
   \<not> spec_starts_with_marker (ascii ''p'') \<and>
   normalize_lines (Some (ascii ''- 7Up'')) = [ascii ''7Up''] \<and>
   normalize_lines (Some (join [10] (normalize_lines (Some (ascii ''- 7Up''))))) =
     [ascii ''Up''] \<and>
   normalize_lines (Some (join [10] (normalize_lines (Some (ascii ''- 7Up''))))) \<noteq>
     normalize_lines (Some (ascii ''- 7Up''))"
  by (simp add: spec_starts_with_marker_def eval_defs)

section \<open>Properties of \<open>clean_restaurant_name\<close> and the formatters\<close>

lemma strip_class_ends:
  "strip_class P s = [] \<or> (\<not> P (hd (strip_class P s)) \<and> \<not> P (last (strip_class P s)))"
proof (cases "strip_class P s = []")
  case True
  then show ?thesis by simp
next
  case False
  have "\<not> P (hd (strip_class P s))"
    using False strip_class_no_lead [of P s] by (simp add: dropWhile_eq_self_iff)
  moreover have "\<not> P (hd (rev (strip_class P s)))"
    using False strip_class_no_trail [of P s] by (simp add: dropWhile_eq_self_iff)
  ultimately show ?thesis
    using False by (simp add: hd_rev)
qed

lemma strip_class_infix:
  "\<exists>pre post. s = pre @ strip_class P s @ post \<and> list_all P pre \<and> list_all P post"
proof -
  define a where "a = dropWhile P s"
  have 1: "s = takeWhile P s @ a" by (simp add: a_def)
  have 2: "a = strip_class P s @ rev (takeWhile P (rev a))"
    unfolding strip_class_def a_def [symmetric]
    by (metis rev_append rev_rev_ident takeWhile_dropWhile_id)
  have 3: "list_all P (takeWhile P s)"
    by (simp add: list_all_iff) (metis set_takeWhileD)
  have 4: "list_all P (rev (takeWhile P (rev a)))"
    by (simp add: list_all_iff) (metis set_takeWhileD)
  from 1 2 have "s = takeWhile P s @ strip_class P s @ rev (takeWhile P (rev a))"
    by simp
  with 3 4 show ?thesis by blast
qed

lemma strip_class_append_core:
  assumes "t \<noteq> []" and "\<not> P (hd t)" and "\<not> P (last t)"
  shows "strip_class P (x @ t) = dropWhile P x @ t"
proof -
  have t: "dropWhile P t = t"
    using assms by (simp add: dropWhile_eq_self_iff)
  have "dropWhile P (x @ t) = dropWhile P x @ t"
    by (simp add: dropWhile_append t)
  moreover have "dropWhile P (rev t @ rev (dropWhile P x)) = rev t @ rev (dropWhile P x)"
    using assms by (simp add: dropWhile_eq_self_iff hd_rev)
  ultimately show ?thesis
    by (simp add: strip_class_def)
qed

lemma join_snoc2:
  "ps \<noteq> [] \<Longrightarrow> join sep (ps @ [a, b]) = join sep ps @ sep @ a @ sep @ b"
proof (induction ps)
  case Nil
  then show ?case by simp
next
  case (Cons p ps)
  then show ?case by (cases ps) simp_all
qed

lemma strip_join_tail:
  assumes "ps \<noteq> []" and "t \<noteq> []" and "\<not> is_space (hd t)" and "\<not> is_space (last t)"
    and "a @ sep @ b = w @ t"
  shows "\<exists>pre. strip (join sep (ps @ [a, b])) = pre @ t"
proof -
  have "join sep (ps @ [a, b]) = (join sep ps @ sep @ w) @ t"
    using assms(1,5) by (simp add: join_snoc2)
  then have "strip (join sep (ps @ [a, b])) = dropWhile is_space (join sep ps @ sep @ w) @ t"
    using strip_class_append_core [OF assms(2,3,4), of "join sep ps @ sep @ w"]
    by (simp add: strip_def)
  then show ?thesis by blast
qed


lemma clean_restaurant_name_eq:
  "clean_restaurant_name (Some n) = strip (strip_chars QUOTE_CLEAN_CHARS (strip n))"
  by (simp add: clean_restaurant_name_def strip_def strip_chars_def strip_class_def)

lemma clean_restaurant_name_parts:
  "\<exists>ws1 q1 ws2 ws3 q2 ws4.
     n = ws1 @ q1 @ ws2 @ clean_restaurant_name (Some n) @ ws3 @ q2 @ ws4 \<and>
     list_all is_space (ws1 @ ws2 @ ws3 @ ws4) \<and>
     list_all (\<lambda>c. c \<in> set QUOTE_CLEAN_CHARS) (q1 @ q2)"
proof -
  define a where "a = strip n"
  define b where "b = strip_chars QUOTE_CLEAN_CHARS a"
  obtain ws1 ws4 where 1: "n = ws1 @ a @ ws4" "list_all is_space ws1" "list_all is_space ws4"
    using strip_class_infix [of n is_space] by (auto simp: a_def strip_def)
  obtain q1 q2 where 2: "a = q1 @ b @ q2" "list_all (\<lambda>c. c \<in> set QUOTE_CLEAN_CHARS) q1"
      "list_all (\<lambda>c. c \<in> set QUOTE_CLEAN_CHARS) q2"
    using strip_class_infix [of a "\<lambda>c. c \<in> set QUOTE_CLEAN_CHARS"]
    by (auto simp: b_def strip_chars_def)
  obtain ws2 ws3 where 3: "b = ws2 @ strip b @ ws3" "list_all is_space ws2" "list_all is_space ws3"
    using strip_class_infix [of b is_space] by (auto simp: strip_def)
  have "n = ws1 @ q1 @ ws2 @ strip b @ ws3 @ q2 @ ws4"
    using 1(1) 2(1) 3(1) by (metis append.assoc)
  moreover have "clean_restaurant_name (Some n) = strip b"
    by (simp add: clean_restaurant_name_eq a_def b_def)
  ultimately show ?thesis
    using 1(2,3) 2(2,3) 3(2,3) by (intro exI [where x = ws1] exI [where x = q1]
      exI [where x = ws2] exI [where x = ws3] exI [where x = q2] exI [where x = ws4]) simp
qed

text \<open>
  Claim C8. \<open>clean_restaurant_name\<close> returns the empty string on the absent and on the
  empty input; on a string it trims whitespace, strips the straight and curly quotes and
  the backtick from both ends, and trims whitespace again. So the input is the result with
  whitespace, quote characters and whitespace again around it on each side, and the result
  neither starts nor ends with whitespace. Applied to a space, \<open>Spice Route\<close> in double
  quotes and two spaces, it returns \<open>Spice Route\<close>.
\<close>

theorem clean_restaurant_name_spec:
  "clean_restaurant_name None = [] \<and> clean_restaurant_name (Some []) = [] \<and>
   clean_restaurant_name (Some n) = strip (strip_chars QUOTE_CLEAN_CHARS (strip n)) \<and>
   set QUOTE_CLEAN_CHARS = {34, 39, 96, 8216, 8217, 8220, 8221} \<and>
   (\<exists>ws1 q1 ws2 ws3 q2 ws4.
      n = ws1 @ q1 @ ws2 @ clean_restaurant_name (Some n) @ ws3 @ q2 @ ws4 \<and>
      list_all is_space (ws1 @ ws2 @ ws3 @ ws4) \<and>
      list_all (\<lambda>c. c \<in> set QUOTE_CLEAN_CHARS) (q1 @ q2)) \<and>
   (clean_restaurant_name (Some n) = [] \<or>
    \<not> is_space (hd (clean_restaurant_name (Some n))) \<and>
    \<not> is_space (last (clean_restaurant_name (Some n)))) \<and>
   clean_restaurant_name (Some ([32, 34] @ ascii ''Spice Route'' @ [34, 32, 32])) =
     ascii ''Spice Route''"
proof (intro conjI)
  show "clean_restaurant_name None = []" by (simp add: clean_restaurant_name_def)
  show "clean_restaurant_name (Some []) = []" by (simp add: clean_restaurant_name_def)
  show "clean_restaurant_name (Some n) = strip (strip_chars QUOTE_CLEAN_CHARS (strip n))"
    by (rule clean_restaurant_name_eq)
  show "set QUOTE_CLEAN_CHARS = {34, 39, 96, 8216, 8217, 8220, 8221}"
    by (auto simp: QUOTE_CLEAN_CHARS_def)
  show "\<exists>ws1 q1 ws2 ws3 q2 ws4.
      n = ws1 @ q1 @ ws2 @ clean_restaurant_name (Some n) @ ws3 @ q2 @ ws4 \<and>
      list_all is_space (ws1 @ ws2 @ ws3 @ ws4) \<and>
      list_all (\<lambda>c. c \<in> set QUOTE_CLEAN_CHARS) (q1 @ q2)"
    by (rule clean_restaurant_name_parts)
  show "clean_restaurant_name (Some n) = [] \<or>
    \<not> is_space (hd (clean_restaurant_name (Some n))) \<and>
    \<not> is_space (last (clean_restaurant_name (Some n)))"
    using strip_class_ends [of is_space "strip_chars QUOTE_CLEAN_CHARS (strip n)"]
    by (simp add: clean_restaurant_name_eq strip_def)
  show "clean_restaurant_name (Some ([32, 34] @ ascii ''Spice Route'' @ [34, 32, 32])) =
     ascii ''Spice Route''"
    by (simp add: eval_defs)
qed

theorem clean_restaurant_name_spec_witness:
  "clean_restaurant_name (Some ([8220] @ ascii '' Casa Verde '' @ [8221, 10])) =
     ascii ''Casa Verde'' \<and>
   clean_restaurant_name (Some (ascii ''`` '')) = []"
proof -
  note eq = clean_restaurant_name_spec [THEN conjunct2, THEN conjunct2, THEN conjunct1]
  show ?thesis
    by (simp only: eq) (simp add: eval_defs)
qed

lemma export_empty_drinks:
  "\<exists>pre. to_export_v2 name items fmt slogan description (Some []) =
     pre @ (if fmt = ascii ''Markdown'' then ascii ''### Drinks\<newline>\<newline>_(none)_''
            else ascii ''Drinks\<newline>(none)'')"
proof (cases "fmt = ascii ''Markdown''")
  case True
  define ps where "ps = [ascii ''## '' @ name] @
      (if slogan \<noteq> [] then [ascii ''*'' @ slogan @ ascii ''*''] else []) @
      (if description \<noteq> [] then [description] else []) @
      [ascii ''\<newline>### Menu Items'', join [10] (map (\<lambda>x. ascii ''- '' @ x) items)]"
  have e: "to_export_v2 name items fmt slogan description (Some []) =
      strip (join (ascii ''\<newline>\<newline>'') (ps @ [ascii ''\<newline>### Drinks'', ascii ''_(none)_'']))"
    using True by (simp add: to_export_v2_def ps_def)
  have "\<exists>pre. strip (join (ascii ''\<newline>\<newline>'') (ps @ [ascii ''\<newline>### Drinks'', ascii ''_(none)_''])) =
      pre @ ascii ''### Drinks\<newline>\<newline>_(none)_''"
  proof (rule strip_join_tail)
    show "ps \<noteq> []" by (simp add: ps_def)
    show "ascii ''\<newline>### Drinks'' @ ascii ''\<newline>\<newline>'' @ ascii ''_(none)_'' =
        [10] @ ascii ''### Drinks\<newline>\<newline>_(none)_''"
      by (simp add: ascii_def)
  qed (simp_all add: ascii_def is_space_def)
  with e True show ?thesis by simp
next
  case False
  define ps where "ps = [name] @
      (if slogan \<noteq> [] then [slogan] else []) @
      (if description \<noteq> [] then [description] else []) @
      [ascii ''\<newline>Menu Items''] @ items"
  have e: "to_export_v2 name items fmt slogan description (Some []) =
      strip (join [10] (ps @ [ascii ''\<newline>Drinks'', ascii ''(none)'']))"
    using False by (simp add: to_export_v2_def ps_def)
  have "\<exists>pre. strip (join [10] (ps @ [ascii ''\<newline>Drinks'', ascii ''(none)''])) =
      pre @ ascii ''Drinks\<newline>(none)''"
  proof (rule strip_join_tail)
    show "ps \<noteq> []" by (simp add: ps_def)
    show "ascii ''\<newline>Drinks'' @ [10] @ ascii ''(none)'' = [10] @ ascii ''Drinks\<newline>(none)''"
      by (simp add: ascii_def)
  qed (simp_all add: ascii_def is_space_def)
  with e False show ?thesis by simp
qed

lemma export_absent_drinks:
  "to_export_v2 name items fmt slogan description None =
   to_export_v2 name items fmt slogan description (Some [])"
  by (simp add: to_export_v2_def)

text \<open>
  Claim C7. When the drinks list is empty, the export ends with the Drinks section and the
  placeholder \<open>(none)\<close> after it: the label \<open>Drinks\<close>, a newline and \<open>(none)\<close> in the
  plain style, which is the style of every format other than \<open>Markdown\<close>; the heading
  \<open>### Drinks\<close>, an empty line and \<open>_(none)_\<close> in the markdown style.
\<close>

theorem export_empty_drinks_placeholder:
  "\<exists>pre. to_export_v2 name items fmt slogan description (Some []) =
     pre @ (if fmt = ascii ''Markdown'' then ascii ''### Drinks\<newline>\<newline>_(none)_''
            else ascii ''Drinks\<newline>(none)'')"
  by (rule export_empty_drinks)

theorem export_empty_drinks_placeholder_witness:
  "to_export_v2 (ascii ''Casa Verde'') [ascii ''Tacos'', ascii ''Elote''] (ascii ''Text'') [] []
     (Some []) =
     ascii ''Casa Verde\<newline>\<newline>Menu Items\<newline>Tacos\<newline>Elote\<newline>\<newline>Drinks\<newline>(none)'' \<and>
   to_export_v2 (ascii ''Casa Verde'') [ascii ''Tacos'', ascii ''Elote''] (ascii ''Markdown'')
     (ascii ''Fresh. Bold.'') [] (Some []) =
     ascii ''## Casa Verde\<newline>\<newline>*Fresh. Bold.*\<newline>\<newline>\<newline>### Menu Items\<newline>\<newline>- Tacos\<newline>- Elote\<newline>\<newline>\<newline>### Drinks\<newline>\<newline>_(none)_''"
  using export_empty_drinks_placeholder [of "ascii ''Casa Verde''"
      "[ascii ''Tacos'', ascii ''Elote'']" "ascii ''Text''" "[]" "[]"]
  by (simp add: to_export_v2_def eval_defs)

text \<open>
  Claim C9. For every name, item list, format, slogan and description, \<open>to_export_v2\<close>
  with the drinks absent returns the string it returns with the empty drinks list, and that
  string ends with the Drinks section and its \<open>(none)\<close> placeholder.
\<close>

theorem export_absent_drinks_as_empty:
  "to_export_v2 name items fmt slogan description None =
     to_export_v2 name items fmt slogan description (Some []) \<and>
   (\<exists>pre. to_export_v2 name items fmt slogan description None =
      pre @ (if fmt = ascii ''Markdown'' then ascii ''### Drinks\<newline>\<newline>_(none)_''
             else ascii ''Drinks\<newline>(none)''))"
  using export_empty_drinks [of name items fmt slogan description]
  by (simp add: export_absent_drinks)

theorem export_absent_drinks_as_empty_witness:
  "to_export_v2 (ascii ''Casa Verde'') [ascii ''Tacos''] (ascii ''Text'') [] [] None =
     ascii ''Casa Verde\<newline>\<newline>Menu Items\<newline>Tacos\<newline>\<newline>Drinks\<newline>(none)'' \<and>
   to_export_v2 (ascii ''Casa Verde'') [ascii ''Tacos''] (ascii ''Text'') [] [] (Some []) =
     ascii ''Casa Verde\<newline>\<newline>Menu Items\<newline>Tacos\<newline>\<newline>Drinks\<newline>(none)''"
  using export_absent_drinks_as_empty [of "ascii ''Casa Verde''" "[ascii ''Tacos'']"
      "ascii ''Text''" "[]" "[]"]
  by (simp add: to_export_v2_def eval_defs)

text \<open>
  Claim C10. For every list of items and every style other than \<open>Bullets\<close> and
  \<open>Numbered\<close>, the empty style and unknown styles included, \<open>to_display_list\<close> returns
  the items joined by newlines with nothing put before an item. No style makes it fail.
\<close>

theorem to_display_list_plain:
  "style \<noteq> ascii ''Bullets'' \<Longrightarrow> style \<noteq> ascii ''Numbered'' \<Longrightarrow>
   to_display_list items style = join [10] items"
  by (simp add: to_display_list_def)

theorem to_display_list_plain_witness:
  "to_display_list [ascii ''Tacos'', ascii ''Elote''] (ascii ''Plain lines'') =
     ascii ''Tacos\<newline>Elote'' \<and>
   to_display_list [ascii ''Tacos'', ascii ''Elote''] [] = ascii ''Tacos\<newline>Elote'' \<and>
   to_display_list [ascii ''Tacos'', ascii ''Elote''] (ascii ''bullets'') =
     ascii ''Tacos\<newline>Elote''"
proof -
  have 1: "ascii ''Plain lines'' \<noteq> ascii ''Bullets''" "ascii ''Plain lines'' \<noteq> ascii ''Numbered''"
    by (simp_all add: ascii_def)
  have 2: "[] \<noteq> ascii ''Bullets''" "[] \<noteq> ascii ''Numbered''"
    by (simp_all add: ascii_def)
  have 3: "ascii ''bullets'' \<noteq> ascii ''Bullets''" "ascii ''bullets'' \<noteq> ascii ''Numbered''"
    by (simp_all add: ascii_def)
  show ?thesis
    using to_display_list_plain [OF 1] to_display_list_plain [OF 2] to_display_list_plain [OF 3]
    by (simp add: ascii_def)
qed

lemma to_display_list_styles:
  "to_display_list [ascii ''Tacos'', ascii ''Elote''] (ascii ''Bullets'') =
     ascii ''- Tacos\<newline>- Elote'' \<and>
   to_display_list [ascii ''Tacos'', ascii ''Elote''] (ascii ''Numbered'') =
     ascii ''1. Tacos\<newline>2. Elote''"
  by (simp add: to_display_list_def ascii_def str_nat.simps)

section \<open>Properties of the chain and the handler\<close>

lemma format_name_prompt:
  "d ''cuisine'' = Some c \<Longrightarrow> format_template name_prompt d = Inr (filled name_prompt c n)"
  by (simp add: name_prompt_def filled_def)

lemma format_menu_prompt:
  "d ''cuisine'' = Some c \<Longrightarrow> d ''restaurant_name'' = Some n \<Longrightarrow>
   format_template menu_prompt d = Inr (filled menu_prompt c n)"
  by (simp add: menu_prompt_def filled_def)

lemma format_drinks_prompt:
  "d ''cuisine'' = Some c \<Longrightarrow> d ''restaurant_name'' = Some n \<Longrightarrow>
   format_template drinks_prompt d = Inr (filled drinks_prompt c n)"
  by (simp add: drinks_prompt_def filled_def)

lemma format_slogan_prompt:
  "d ''cuisine'' = Some c \<Longrightarrow> d ''restaurant_name'' = Some n \<Longrightarrow>
   format_template slogan_prompt d = Inr (filled slogan_prompt c n)"
  by (simp add: slogan_prompt_def filled_def)

lemma format_description_prompt:
  "d ''cuisine'' = Some c \<Longrightarrow> d ''restaurant_name'' = Some n \<Longrightarrow>
   format_template description_prompt d = Inr (filled description_prompt c n)"
  by (simp add: description_prompt_def filled_def)

lemmas format_prompts =
  format_name_prompt format_menu_prompt format_drinks_prompt format_slogan_prompt
  format_description_prompt

lemmas chain_defs =
  build_chain_def name_step_def menu_step_def drinks_step_def slogan_step_def
  description_step_def name_chain_def menu_chain_def drinks_chain_def slogan_chain_def
  description_chain_def build_menu_def build_drinks_def prompt_llm_parser_def invoke_llm_def
  get_or_empty_def

lemma build_chain_name_failure:
  assumes "llm (filled name_prompt cuisine []) s = (Inl e, s')"
  shows "build_chain llm [''cuisine'' \<mapsto> cuisine] (s, log) =
         (Inl (Upstream e), (s', log @ [filled name_prompt cuisine []]))"
  using assms by (simp add: chain_defs format_name_prompt [where n = "[]"])

lemma build_chain_all_text:
  assumes "llm (filled name_prompt c []) s0 = (Inr n, s1)"
    and "llm (filled menu_prompt c n) s1 = (Inr m, s2)"
    and "llm (filled drinks_prompt c n) s2 = (Inr d, s3)"
    and "llm (filled slogan_prompt c n) s3 = (Inr sl, s4)"
    and "llm (filled description_prompt c n) s4 = (Inr de, s5)"
  shows "build_chain llm [''cuisine'' \<mapsto> c] (s0, log) =
     (Inr [''cuisine'' \<mapsto> c, ''restaurant_name'' \<mapsto> n, ''menu_items'' \<mapsto> m,
           ''drink_items'' \<mapsto> d, ''slogan'' \<mapsto> sl, ''description'' \<mapsto> de],
      (s5, log @ [filled name_prompt c [], filled menu_prompt c n, filled drinks_prompt c n,
                  filled slogan_prompt c n, filled description_prompt c n]))"
  using assms
  by (simp add: chain_defs format_name_prompt [where n = "[]"] format_menu_prompt
      format_drinks_prompt format_slogan_prompt format_description_prompt)

text \<open>
  Claim C5. Whatever the model is, when its call for the restaurant name fails, the chain
  and the handler end with that failure as an upstream error, the model is left in the state
  after that one call, and the log of prompts has grown by the name prompt alone: the
  prompts for menu, drinks, slogan and description are never sent, and the name prompt is
  not sent a second time.
\<close>

theorem name_failure_stops_chain:
  assumes "llm (filled name_prompt cuisine []) s = (Inl e, s')"
  shows "build_chain llm [''cuisine'' \<mapsto> cuisine] (s, log) =
           (Inl (Upstream e), (s', log @ [filled name_prompt cuisine []])) \<and>
         generate llm cuisine (s, log) =
           (Inl (Upstream e), (s', log @ [filled name_prompt cuisine []]))"
  using assms build_chain_name_failure [where llm = llm and cuisine = cuisine and log = log]
  by (simp add: generate_def generate_with_def)

theorem name_failure_stops_chain_witness:
  "generate (\<lambda>prompt (s::nat). (Inl ''timeout'', s + 1)) (ascii ''Thai'') (0, []) =
     (Inl (Upstream ''timeout''), (1, [filled name_prompt (ascii ''Thai'') []]))"
  using name_failure_stops_chain
    [where llm = "\<lambda>prompt (s::nat). (Inl ''timeout'', s + 1)" and cuisine = "ascii ''Thai''"
       and s = 0 and e = "''timeout''" and s' = 1 and log = "[]"]
  by simp

text \<open>
  Claim C1. Let the five model calls of a run return the texts \<open>n\<close>, \<open>m\<close>, \<open>d\<close>, \<open>sl\<close> and
  \<open>de\<close> for name, menu, drinks, slogan and description. Then the handler fails with
  \<open>Empty_name\<close> when the cleaned name is empty, else with \<open>Empty_menu\<close> when the normalized
  menu is empty, and else it succeeds with the cleaned name, the normalized menu, the
  normalized drinks, and the trimmed slogan and description, whether or not these last
  three are empty. So it fails exactly when the cleaned name or the normalized menu is
  empty.
\<close>

theorem generation_fails_only_on_empty_name_or_menu:
  assumes "llm (filled name_prompt c []) s0 = (Inr n, s1)"
    and "llm (filled menu_prompt c n) s1 = (Inr m, s2)"
    and "llm (filled drinks_prompt c n) s2 = (Inr d, s3)"
    and "llm (filled slogan_prompt c n) s3 = (Inr sl, s4)"
    and "llm (filled description_prompt c n) s4 = (Inr de, s5)"
  shows "fst (generate llm c (s0, log)) =
     (if clean_restaurant_name (Some n) = [] then Inl Empty_name
      else if normalize_lines (Some m) = [] then Inl Empty_menu
      else Inr \<lparr>rest_name = clean_restaurant_name (Some n), menu = normalize_lines (Some m),
                drink_list = normalize_lines (Some d), slogan_text = strip sl,
                description_text = strip de\<rparr>) \<and>
     ((\<exists>e. fst (generate llm c (s0, log)) = Inl e) =
      (clean_restaurant_name (Some n) = [] \<or> normalize_lines (Some m) = []))"
  using assms build_chain_all_text [where llm = llm and log = log]
  by (simp add: generate_def generate_with_def validate_def get_or_empty_def Let_def)

theorem generation_fails_only_on_empty_name_or_menu_witness:
  "fst (generate
      (\<lambda>prompt (s::nat).
         (Inr (if s = 0 then [34] @ ascii ''Casa Verde'' @ [34]
               else if s = 1 then ascii ''1. Tacos\<newline>2. Elote'' else []) :: string + pystr,
          s + 1))
      (ascii ''Mexican'') (0, [])) =
   Inr \<lparr>rest_name = ascii ''Casa Verde'', menu = [ascii ''Tacos'', ascii ''Elote''],
        drink_list = [], slogan_text = [], description_text = []\<rparr> \<and>
   fst (generate
      (\<lambda>prompt (s::nat).
         (Inr (if s = 0 then ascii ''Casa Verde'' else ascii '' \<newline> '') :: string + pystr,
          s + 1))
      (ascii ''Mexican'') (0, [])) = Inl Empty_menu"
proof
  show "fst (generate
      (\<lambda>prompt (s::nat).
         (Inr (if s = 0 then [34] @ ascii ''Casa Verde'' @ [34]
               else if s = 1 then ascii ''1. Tacos\<newline>2. Elote'' else []) :: string + pystr,
          s + 1))
      (ascii ''Mexican'') (0, [])) =
   Inr \<lparr>rest_name = ascii ''Casa Verde'', menu = [ascii ''Tacos'', ascii ''Elote''],
        drink_list = [], slogan_text = [], description_text = []\<rparr>"
    using generation_fails_only_on_empty_name_or_menu
      [where llm = "\<lambda>prompt (s::nat).
         (Inr (if s = 0 then [34] @ ascii ''Casa Verde'' @ [34]
               else if s = 1 then ascii ''1. Tacos\<newline>2. Elote'' else []), s + 1)"
         and c = "ascii ''Mexican''" and ?s0.0 = 0 and log = "[]"
         and n = "[34] @ ascii ''Casa Verde'' @ [34]" and ?s1.0 = 1
         and m = "ascii ''1. Tacos\<newline>2. Elote''" and ?s2.0 = 2
         and d = "[]" and ?s3.0 = 3 and sl = "[]" and ?s4.0 = 4 and de = "[]" and ?s5.0 = 5, THEN conjunct1]
    by (simp add: eval_defs)
  show "fst (generate
      (\<lambda>prompt (s::nat).
         (Inr (if s = 0 then ascii ''Casa Verde'' else ascii '' \<newline> '') :: string + pystr,
          s + 1))
      (ascii ''Mexican'') (0, [])) = Inl Empty_menu"
    using generation_fails_only_on_empty_name_or_menu
      [where llm = "\<lambda>prompt (s::nat).
         (Inr (if s = 0 then ascii ''Casa Verde'' else ascii '' \<newline> ''), s + 1)"
         and c = "ascii ''Mexican''" and ?s0.0 = 0 and log = "[]"
         and n = "ascii ''Casa Verde''" and ?s1.0 = 1
         and m = "ascii '' \<newline> ''" and ?s2.0 = 2
         and d = "ascii '' \<newline> ''" and ?s3.0 = 3 and sl = "ascii '' \<newline> ''" and ?s4.0 = 4
         and de = "ascii '' \<newline> ''" and ?s5.0 = 5, THEN conjunct1]
    by (simp add: eval_defs)
qed


lemma format_template_cong:
  "(\<And>k. Var k \<in> set prompt \<Longrightarrow> d k = d' k) \<Longrightarrow>
   format_template prompt d = (format_template prompt d' :: 'e error + pystr)"
proof (induction prompt)
  case Nil
  show ?case by simp
next
  case (Cons p ps)
  have "format_template ps d = (format_template ps d' :: 'e error + pystr)"
    using Cons by simp
  moreover have "\<And>k. p = Var k \<Longrightarrow> d k = d' k"
    using Cons.prems by simp
  ultimately show ?case by (cases p) (simp_all split: option.splits)
qed

lemma fst_prompt_llm_parser_stateless:
  "fst (prompt_llm_parser prompt (stateless f) d w) =
     (case format_template prompt d of
        Inl e \<Rightarrow> Inl e
      | Inr p \<Rightarrow> (case f p of Inl e \<Rightarrow> Inl (Upstream e) | Inr t \<Rightarrow> Inr t))"
  by (simp add: prompt_llm_parser_def invoke_llm_def stateless_def split: sum.splits)

text \<open>Each of the four later steps reads the cuisine and the restaurant name only.\<close>

lemma later_step_reads_name_only:
  assumes "(k, g) \<in> set [menu_step (stateless f), drinks_step (stateless f),
      slogan_step (stateless f), description_step (stateless f)]"
    and "d ''cuisine'' = d' ''cuisine''" and "d ''restaurant_name'' = d' ''restaurant_name''"
  shows "fst (g d w) = fst (g d' w')"
proof -
  have s: "format_template slogan_prompt d = (format_template slogan_prompt d' :: 'a error + pystr)"
    using assms(2,3) by (intro format_template_cong) (auto simp: slogan_prompt_def)
  have t: "format_template description_prompt d =
      (format_template description_prompt d' :: 'a error + pystr)"
    using assms(2,3) by (intro format_template_cong) (auto simp: description_prompt_def)
  from assms(1) consider "g = build_menu (stateless f)" | "g = build_drinks (stateless f)"
    | "g = slogan_chain (stateless f)" | "g = description_chain (stateless f)"
    by (auto simp: menu_step_def drinks_step_def slogan_step_def description_step_def)
  then show ?thesis
  proof cases
    case 1
    with assms(2,3) show ?thesis
      by (simp add: build_menu_def menu_chain_def get_or_empty_def
          fst_prompt_llm_parser_stateless)
  next
    case 2
    with assms(2,3) show ?thesis
      by (simp add: build_drinks_def drinks_chain_def get_or_empty_def
          fst_prompt_llm_parser_stateless)
  next
    case 3
    with s show ?thesis
      by (simp add: slogan_chain_def fst_prompt_llm_parser_stateless)
  next
    case 4
    with t show ?thesis
      by (simp add: description_chain_def fst_prompt_llm_parser_stateless)
  qed
qed

text \<open>
  A sequence of assignments whose steps have different keys, none of them \<open>cuisine\<close> or
  \<open>restaurant_name\<close>, and read those two keys only: the run returns the dictionary
  \<open>res\<close> exactly when every step returns a value, \<open>res\<close> has that value at the step's key,
  and \<open>res\<close> is the input anywhere else. The order of the steps does not occur.
\<close>

lemma run_assigns_result:
  assumes "distinct (map fst steps)"
    and "\<And>k g. (k, g) \<in> set steps \<Longrightarrow> k \<noteq> ''cuisine'' \<and> k \<noteq> ''restaurant_name''"
    and "\<And>k g d d' w w'. (k, g) \<in> set steps \<Longrightarrow> d ''cuisine'' = d' ''cuisine'' \<Longrightarrow>
           d ''restaurant_name'' = d' ''restaurant_name'' \<Longrightarrow> fst (g d w) = fst (g d' w')"
  shows "(fst (run_assigns steps d w) = Inr res) =
         ((\<forall>(k, g) \<in> set steps. \<exists>v. fst (g d w0) = Inr v \<and> res k = Some v) \<and>
          (\<forall>x. x \<notin> fst ` set steps \<longrightarrow> res x = d x))"
  using assms
proof (induction steps arbitrary: d w)
  case Nil
  show ?case by auto
next
  case (Cons step steps)
  obtain k g where step: "step = (k, g)" by (cases step)
  have knew: "k \<notin> fst ` set steps"
    using Cons.prems(1) by (simp add: step)
  have kk: "k \<noteq> ''cuisine''" "k \<noteq> ''restaurant_name''"
    using Cons.prems(2) [of k g] by (simp_all add: step)
  have gw: "fst (g d w0) = fst (g d w)"
    using Cons.prems(3) [of k g d d w0 w] by (simp add: step)
  obtain r w' where Pair: "g d w = (r, w')" by (cases "g d w")
  show ?case
  proof -
    show ?thesis
    proof (cases r)
      case (Inl e)
      with Pair gw show ?thesis by (simp add: step)
    next
      case (Inr v)
      have later: "fst (g' (d(k \<mapsto> v)) w0) = fst (g' d w0)" if "(k', g') \<in> set steps" for k' g'
      proof (rule Cons.prems(3) [of k' g'])
        show "(k', g') \<in> set (step # steps)" using that by simp
        show "(d(k \<mapsto> v)) ''cuisine'' = d ''cuisine''" using kk by simp
        show "(d(k \<mapsto> v)) ''restaurant_name'' = d ''restaurant_name''" using kk by simp
      qed
      have IH: "(fst (run_assigns steps (d(k \<mapsto> v)) w') = Inr res) =
         ((\<forall>(k', g') \<in> set steps. \<exists>v'. fst (g' (d(k \<mapsto> v)) w0) = Inr v' \<and> res k' = Some v') \<and>
          (\<forall>x. x \<notin> fst ` set steps \<longrightarrow> res x = (d(k \<mapsto> v)) x))"
      proof (rule Cons.IH)
        show "distinct (map fst steps)"
          using Cons.prems(1) by simp
        show "k' \<noteq> ''cuisine'' \<and> k' \<noteq> ''restaurant_name''" if "(k', g') \<in> set steps"
          for k' g'
          using Cons.prems(2) [of k' g'] that by simp
        show "fst (g' d w) = fst (g' d' w')"
          if "(k', g') \<in> set steps" "d ''cuisine'' = d' ''cuisine''"
            "d ''restaurant_name'' = d' ''restaurant_name''" for k' g' d d' w w'
          using Cons.prems(3) [of k' g' d d' w w'] that by simp
      qed
      have a: "(\<forall>(k', g') \<in> set steps. \<exists>v'. fst (g' (d(k \<mapsto> v)) w0) = Inr v' \<and> res k' = Some v') =
               (\<forall>(k', g') \<in> set steps. \<exists>v'. fst (g' d w0) = Inr v' \<and> res k' = Some v')"
        using later by auto
      have b: "(\<forall>x. x \<notin> fst ` set steps \<longrightarrow> res x = (d(k \<mapsto> v)) x) =
               (res k = Some v \<and> (\<forall>x. x \<notin> fst ` set (step # steps) \<longrightarrow> res x = d x))"
        using knew by (auto simp: step)
      have c: "fst (g d w0) = Inr v"
        using gw Pair Inr by simp
      have 1: "(fst (run_assigns (step # steps) d w) = Inr res) =
          (fst (run_assigns steps (d(k \<mapsto> v)) w') = Inr res)"
        using Pair Inr by (simp add: step)
      have 2: "(\<forall>(k', g') \<in> set (step # steps). \<exists>v'. fst (g' d w0) = Inr v' \<and> res k' = Some v') =
          (res k = Some v \<and>
           (\<forall>(k', g') \<in> set steps. \<exists>v'. fst (g' d w0) = Inr v' \<and> res k' = Some v'))"
        using c by (auto simp: step)
      show ?thesis
        unfolding 1 IH a b 2 by blast
    qed
  qed
qed

lemma run_assigns_permuted:
  assumes "mset steps = mset steps'"
    and "distinct (map fst steps')"
    and "\<And>k g. (k, g) \<in> set steps' \<Longrightarrow> k \<noteq> ''cuisine'' \<and> k \<noteq> ''restaurant_name''"
    and "\<And>k g d d' w w'. (k, g) \<in> set steps' \<Longrightarrow> d ''cuisine'' = d' ''cuisine'' \<Longrightarrow>
           d ''restaurant_name'' = d' ''restaurant_name'' \<Longrightarrow> fst (g d w) = fst (g d' w')"
  shows "(fst (run_assigns steps d w) = Inr res) = (fst (run_assigns steps' d w') = Inr res)"
proof -
  have s: "set steps = set steps'"
    using assms(1) by (rule mset_eq_setD)
  have "mset (map fst steps) = mset (map fst steps')"
    using assms(1) by (metis mset_map)
  then have d: "distinct (map fst steps)"
    using assms(2) by (metis mset_eq_imp_distinct_iff)
  have 1: "(fst (run_assigns steps d w) = Inr res) =
         ((\<forall>(k, g) \<in> set steps. \<exists>v. fst (g d w) = Inr v \<and> res k = Some v) \<and>
          (\<forall>x. x \<notin> fst ` set steps \<longrightarrow> res x = d x))"
    using d assms(3,4) unfolding s [symmetric] by (rule run_assigns_result)
  have 2: "(fst (run_assigns steps' d w') = Inr res) =
         ((\<forall>(k, g) \<in> set steps'. \<exists>v. fst (g d w) = Inr v \<and> res k = Some v) \<and>
          (\<forall>x. x \<notin> fst ` set steps' \<longrightarrow> res x = d x))"
    using assms(2,3,4) by (rule run_assigns_result)
  show ?thesis
    unfolding 1 2 s ..
qed

lemma fst_generate_with:
  "fst (generate_with chain cuisine w) =
     (case fst (chain [''cuisine'' \<mapsto> cuisine] w) of Inl e \<Rightarrow> Inl e | Inr res \<Rightarrow> validate res)"
  by (simp add: generate_with_def split: prod.splits sum.splits)

text \<open>
  Claim C6. Let the model be without state, and let \<open>steps\<close> be the four assignments of
  menu, drinks, slogan and description in any order. Then the handler run on the chain
  that assigns the name first and then \<open>steps\<close> returns the result \<open>r\<close> exactly when the
  handler run on the chain of the source returns \<open>r\<close>: the same name, menu, drinks, slogan
  and description, or a failure in both.
\<close>

theorem later_steps_order_independent:
  assumes "mset steps = mset [menu_step (stateless f), drinks_step (stateless f),
      slogan_step (stateless f), description_step (stateless f)]"
  shows "(fst (generate_with (run_assigns (name_step (stateless f) # steps)) cuisine w) = Inr r) =
         (fst (generate (stateless f) cuisine w) = Inr r)"
proof -
  let ?four = "[menu_step (stateless f), drinks_step (stateless f),
      slogan_step (stateless f), description_step (stateless f)]"
  have perm: "(fst (run_assigns steps d u) = Inr res) = (fst (run_assigns ?four d u) = Inr res)"
    for d u res
  proof (rule run_assigns_permuted [OF assms])
    show "distinct (map fst ?four)"
      by (simp add: menu_step_def drinks_step_def slogan_step_def description_step_def)
    show "k \<noteq> ''cuisine'' \<and> k \<noteq> ''restaurant_name''" if "(k, g) \<in> set ?four" for k g
      using that
      by (auto simp: menu_step_def drinks_step_def slogan_step_def description_step_def)
    show "fst (g d w) = fst (g d' w')"
      if "(k, g) \<in> set ?four" "d ''cuisine'' = d' ''cuisine''"
        "d ''restaurant_name'' = d' ''restaurant_name''" for k g d d' w w'
      using that by (rule later_step_reads_name_only)
  qed
  have "(fst (run_assigns (name_step (stateless f) # steps) d u) = Inr res) =
        (fst (run_assigns (name_step (stateless f) # ?four) d u) = Inr res)" for d u res
    using perm
    by (cases "name_chain (stateless f) d u")
       (simp add: name_step_def split: sum.splits)
  then have eq: "(fst (run_assigns (name_step (stateless f) # steps)
          [''cuisine'' \<mapsto> cuisine] w) = Inr res) =
        (fst (run_assigns (name_step (stateless f) # ?four) [''cuisine'' \<mapsto> cuisine] w) =
          Inr res)" for res
    by blast
  define A where "A = fst (run_assigns (name_step (stateless f) # steps)
      [''cuisine'' \<mapsto> cuisine] w)"
  define B where "B = fst (run_assigns (name_step (stateless f) # ?four)
      [''cuisine'' \<mapsto> cuisine] w)"
  have AB: "(A = Inr res) = (B = Inr res)" for res
    using eq by (simp add: A_def B_def)
  have "((case A of Inl e \<Rightarrow> Inl e | Inr res \<Rightarrow> validate res) = (Inr r :: 'a error + generation)) =
        ((case B of Inl e \<Rightarrow> Inl e | Inr res \<Rightarrow> validate res) = Inr r)"
  proof (cases A)
    case (Inl e)
    then have "\<exists>e'. B = Inl e'"
      using AB by (cases B) auto
    with Inl show ?thesis by auto
  next
    case (Inr res)
    then have "B = Inr res" using AB by simp
    with Inr show ?thesis by simp
  qed
  then show ?thesis
    unfolding generate_def build_chain_def fst_generate_with A_def B_def .
qed

theorem later_steps_order_independent_witness:
  "fst (generate_with
      (run_assigns
         [name_step (stateless (\<lambda>p. Inr (take 4 p))),
          description_step (stateless (\<lambda>p. Inr (take 4 p))),
          slogan_step (stateless (\<lambda>p. Inr (take 4 p))),
          drinks_step (stateless (\<lambda>p. Inr (take 4 p))),
          menu_step (stateless (\<lambda>p. Inr (take 4 p)))])
      (ascii ''Thai'') ((), [])) =
     (Inr \<lparr>rest_name = ascii ''You'', menu = [ascii ''List''], drink_list = [ascii ''List''],
          slogan_text = ascii ''You'', description_text = ascii ''Writ''\<rparr>
        :: string error + generation) \<and>
   fst (generate (stateless (\<lambda>p. Inr (take 4 p))) (ascii ''Thai'') ((), [])) =
     (Inr \<lparr>rest_name = ascii ''You'', menu = [ascii ''List''], drink_list = [ascii ''List''],
          slogan_text = ascii ''You'', description_text = ascii ''Writ''\<rparr>
        :: string error + generation)"
proof -
  let ?F = "stateless (\<lambda>p. Inr (take 4 p) :: string + pystr)"
  have m: "mset [description_step ?F, slogan_step ?F, drinks_step ?F, menu_step ?F] =
      mset [menu_step ?F, drinks_step ?F, slogan_step ?F, description_step ?F]"
    by (simp add: add_mset_commute)
  have e: "fst (generate ?F (ascii ''Thai'') ((), [])) =
     Inr \<lparr>rest_name = ascii ''You'', menu = [ascii ''List''], drink_list = [ascii ''List''],
          slogan_text = ascii ''You'', description_text = ascii ''Writ''\<rparr>"
    by (simp add: generate_def generate_with_def chain_defs stateless_def name_prompt_def
        menu_prompt_def drinks_prompt_def slogan_prompt_def description_prompt_def
        validate_def eval_defs)
  show ?thesis
    using later_steps_order_independent [OF m, of "ascii ''Thai''" "((), [])"] e by simp
qed

end
